theory Spec2Isabelle
  imports Complex_Main "HOL-Library.Word"
begin

section \<open>File-system model\<close>

text \<open>
  The two worker threads of \<^verbatim>\<open>pyqt-tree-scanner.py\<close> touch the outside world only
  through the local file system. A directory entry is either a regular file (its bytes and
  whether the process may open it for reading and writing) or a sub-directory.
\<close>

type_synonym byte = "8 word"

datatype node = RegularFile (content: "byte list") (accessible: bool) | Directory

text \<open>
  A directory as \<^verbatim>\<open>os.listdir\<close> sees it: names paired with nodes, in enumeration order.
\<close>

type_synonym directory = "(string \<times> node) list"

definition listdir :: "directory \<Rightarrow> string list" where
  "listdir d = map fst d"

definition isfile :: "directory \<Rightarrow> string \<Rightarrow> bool" where
  \<comment> \<open>\<^verbatim>\<open>os.path.isfile(os.path.join(directory, filename))\<close>; the names of a
      directory are distinct, so the lookup finds the entry enumerated\<close>
  "isfile d filename =
     (case map_of d filename of Some (RegularFile c a) \<Rightarrow> True | _ \<Rightarrow> False)"

definition st_size :: "directory \<Rightarrow> string \<Rightarrow> nat" where
  \<comment> \<open>\<^verbatim>\<open>os.stat(path).st_size\<close>; the scanner calls it on regular files only.\<close>
  "st_size d filename =
     (case map_of d filename of Some (RegularFile c a) \<Rightarrow> length c | _ \<Rightarrow> 0)"

definition startswith_dot :: "string \<Rightarrow> bool" where
  \<comment> \<open>\<^verbatim>\<open>filename.startswith('.')\<close>\<close>
  "startswith_dot s = (case s of [] \<Rightarrow> False | c # cs \<Rightarrow> c = CHR ''.'')"

section \<open>Double-precision arithmetic of the progress computation\<close>

text \<open>
  \<^verbatim>\<open>increment = 100 / total_files\<close> and \<^verbatim>\<open>(index + 1) * increment\<close> are computed in
  IEEE-754 binary64. Both results are positive and far from the overflow and subnormal
  ranges, so each operation is the exact rational result rounded to the nearest number
  with a 53-bit significand, ties to the even significand.
\<close>

function bit_length :: "int \<Rightarrow> nat" where
  "bit_length n = (if n \<le> 0 then 0 else Suc (bit_length (n div 2)))"
  by pat_completeness auto
termination
  by (relation "measure nat") auto

declare bit_length.simps [simp del]

definition pow2 :: "int \<Rightarrow> rat" where
  "pow2 s = (if 0 \<le> s then 2 ^ nat s else 1 / 2 ^ nat (- s))"

definition round_half_even :: "rat \<Rightarrow> int" where
  "round_half_even y =
     (let f = \<lfloor>y\<rfloor>; r = y - of_int f
      in if r < 1 / 2 then f
         else if 1 / 2 < r then f + 1
         else if even f then f else f + 1)"

definition binary64 :: "rat \<Rightarrow> rat" where
  "binary64 x =
     (if x \<le> 0 then 0
      else let (p, q) = quotient_of x;
               s0 = 53 - (int (bit_length p) - int (bit_length q));
               s = (if x * pow2 s0 < 2 ^ 53 then s0 else s0 - 1)
           in of_int (round_half_even (x * pow2 s)) / pow2 s)"

section \<open>FileScannerThread\<close>

text \<open>
  \<^verbatim>\<open>
  def run(self):
      file_sizes = []
      file_names = []
      total_files = len([f for f in os.listdir(self.directory) if not f.startswith('.')])
      increment = 100 / total_files if total_files > 0 else 1

      for index, filename in enumerate(os.listdir(self.directory)):
          if filename.startswith('.'):
              continue  # Skip hidden files
          path = os.path.join(self.directory, filename)
          if os.path.isfile(path):
              file_sizes.append(os.stat(path).st_size)
              file_names.append(filename)
          self.progress.emit(int((index + 1) * increment))

      data = {'name': file_names, 'size': file_sizes}
      df = pd.DataFrame(data)
      self.result.emit(df)
  \<close>
  The signals emitted by the thread are collected, in emission order, as a list of events.
  The data frame is the list of its rows.
\<close>

datatype event = Progress int | Result "(string \<times> nat) list"

record scan_state =
  file_sizes :: "nat list"
  file_names :: "string list"
  emitted :: "event list"

definition total_files :: "directory \<Rightarrow> nat" where
  "total_files d = length (filter (\<lambda>f. \<not> startswith_dot f) (listdir d))"

definition increment :: "nat \<Rightarrow> rat" where
  "increment n = (if n > 0 then binary64 (100 / of_nat n) else 1)"

definition progress_value :: "nat \<Rightarrow> rat \<Rightarrow> int" where
  \<comment> \<open>\<^verbatim>\<open>int((index + 1) * increment)\<close>\<close>
  "progress_value index inc = \<lfloor>binary64 (of_nat (index + 1) * inc)\<rfloor>"

fun scan_loop :: "directory \<Rightarrow> rat \<Rightarrow> nat \<Rightarrow> string list \<Rightarrow> scan_state \<Rightarrow> scan_state" where
  "scan_loop d inc index [] st = st"
| "scan_loop d inc index (filename # rest) st =
     (if startswith_dot filename then scan_loop d inc (index + 1) rest st
      else
        let st1 = (if isfile d filename
                   then st\<lparr>file_sizes := file_sizes st @ [st_size d filename],
                           file_names := file_names st @ [filename]\<rparr>
                   else st);
            st2 = st1\<lparr>emitted := emitted st1 @ [Progress (progress_value index inc)]\<rparr>
        in scan_loop d inc (index + 1) rest st2)"

definition scanner_run :: "directory \<Rightarrow> event list" where
  "scanner_run d =
     (let st = scan_loop d (increment (total_files d)) 0 (listdir d)
                 \<lparr>file_sizes = [], file_names = [], emitted = []\<rparr>;
          df = zip (file_names st) (file_sizes st)
      in emitted st @ [Result df])"

section \<open>The world seen by SecureDeleteThread\<close>

text \<open>
  The eraser works on one path. The world holds the files by path, whether the directory
  holding them admits creating and removing entries, the operating system's random source
  (an infinite sequence of bytes and how many of them were handed out), and a log of every
  buffer passed to \<^verbatim>\<open>write\<close>, oldest first. Storage and memory are unbounded: no
  write fails for lack of space. The operating system is Linux.
\<close>

datatype oserror = FileNotFoundError | PermissionError | IsADirectoryError

record world =
  files :: "string \<rightharpoonup> node"
  dir_writable :: bool
  entropy :: "nat \<Rightarrow> byte"
  consumed :: nat
  written :: "byte list list"

text \<open>
  A call either returns a value or raises; both leave a world behind. Nothing in
  \<^verbatim>\<open>SecureDeleteThread\<close> catches an exception, so a raise ends the thread's
  \<^verbatim>\<open>run\<close>.
\<close>

datatype 'a outcome = Raised oserror world | Returned 'a world

fun world_of :: "'a outcome \<Rightarrow> world" where
  "world_of (Raised e w) = w"
| "world_of (Returned x w) = w"

record fileobj =
  f_path :: string
  f_pos :: nat

definition open_ab_plus :: "string \<Rightarrow> world \<Rightarrow> fileobj outcome" where
  \<comment> \<open>\<^verbatim>\<open>open(path, "ba+", buffering=0)\<close>: read and append, created when missing,
      positioned at the end\<close>
  "open_ab_plus path w =
     (case files w path of
        None \<Rightarrow>
          if dir_writable w
          then Returned \<lparr>f_path = path, f_pos = 0\<rparr>
                 (w\<lparr>files := (files w)(path \<mapsto> RegularFile [] True)\<rparr>)
          else Raised PermissionError w
      | Some Directory \<Rightarrow> Raised IsADirectoryError w
      | Some (RegularFile c a) \<Rightarrow>
          if a then Returned \<lparr>f_path = path, f_pos = length c\<rparr> w
          else Raised PermissionError w)"

definition seek :: "nat \<Rightarrow> fileobj \<Rightarrow> fileobj" where
  "seek offset f = f\<lparr>f_pos := offset\<rparr>"

definition MAX_RW_COUNT :: nat where
  \<comment> \<open>\<^verbatim>\<open>0x7ffff000\<close>, the most bytes one \<^verbatim>\<open>write\<close> system call transfers\<close>
  "MAX_RW_COUNT = 2147479552"

definition f_write :: "byte list \<Rightarrow> fileobj \<Rightarrow> world \<Rightarrow> fileobj \<times> world" where
  \<comment> \<open>\<^verbatim>\<open>f.write(buf)\<close> on an unbuffered file opened for appending: one system call, which
      writes at the end of the file, whatever the position, and transfers at most
      \<open>MAX_RW_COUNT\<close> bytes of the buffer; the count it returns is ignored by every caller\<close>
  "f_write buf f w =
     (case files w (f_path f) of
        Some (RegularFile c a) \<Rightarrow>
          (f\<lparr>f_pos := length c + length (take MAX_RW_COUNT buf)\<rparr>,
           w\<lparr>files := (files w)(f_path f \<mapsto> RegularFile (c @ take MAX_RW_COUNT buf) a),
             written := written w @ [buf]\<rparr>)
      | _ \<Rightarrow> (f, w))"

definition f_read :: "fileobj \<Rightarrow> world \<Rightarrow> byte list \<times> fileobj" where
  \<comment> \<open>\<^verbatim>\<open>f.read()\<close>: everything from the position to the end of the file\<close>
  "f_read f w =
     (case files w (f_path f) of
        Some (RegularFile c a) \<Rightarrow> (drop (f_pos f) c, f\<lparr>f_pos := max (f_pos f) (length c)\<rparr>)
      | _ \<Rightarrow> ([], f))"

definition getsize :: "string \<Rightarrow> world \<Rightarrow> nat outcome" where
  \<comment> \<open>\<^verbatim>\<open>os.path.getsize(path)\<close>; the eraser asks for the size of a file it has
      opened, so the size reported for a directory is never used\<close>
  "getsize path w =
     (case files w path of
        None \<Rightarrow> Raised FileNotFoundError w
      | Some Directory \<Rightarrow> Returned 0 w
      | Some (RegularFile c a) \<Rightarrow> Returned (length c) w)"

definition urandom :: "nat \<Rightarrow> world \<Rightarrow> byte list \<times> world" where
  \<comment> \<open>\<^verbatim>\<open>os.urandom(n)\<close>: the next \<open>n\<close> bytes of the random source\<close>
  "urandom n w =
     (map (entropy w) [consumed w ..< consumed w + n], w\<lparr>consumed := consumed w + n\<rparr>)"

definition os_remove :: "string \<Rightarrow> world \<Rightarrow> unit outcome" where
  \<comment> \<open>\<^verbatim>\<open>os.remove(path)\<close>: removing an entry needs write permission on the
      directory, not on the file, and that is tested before the kind of the entry; a
      directory is then refused with \<^verbatim>\<open>IsADirectoryError\<close>\<close>
  "os_remove path w =
     (case files w path of
        None \<Rightarrow> Raised FileNotFoundError w
      | Some n \<Rightarrow>
          if \<not> dir_writable w then Raised PermissionError w
          else (case n of
                  Directory \<Rightarrow> Raised IsADirectoryError w
                | RegularFile c a \<Rightarrow>
                    Returned () (w\<lparr>files := (files w)(path := None)\<rparr>)))"

section \<open>SecureDeleteThread\<close>

text \<open>
  \<^verbatim>\<open>
  def zero_fill(self):
      with open(self.file_path, "ba+", buffering=0) as f:
          for _ in range(self.passes):
              f.seek(0)
              f.write(b'\x00' * os.path.getsize(self.file_path))
  \<close>
  \<^verbatim>\<open>random_fill\<close> is the same loop writing \<^verbatim>\<open>os.urandom(os.path.getsize(self.file_path))\<close>,
  and \<^verbatim>\<open>dod_standard\<close> is that loop over \<^verbatim>\<open>range(3)\<close>.
\<close>

fun zero_passes :: "nat \<Rightarrow> string \<Rightarrow> fileobj \<Rightarrow> world \<Rightarrow> fileobj outcome" where
  "zero_passes 0 file_path f w = Returned f w"
| "zero_passes (Suc n) file_path f w =
     (let f1 = seek 0 f
      in case getsize file_path w of
           Raised e w1 \<Rightarrow> Raised e w1
         | Returned sz w1 \<Rightarrow>
             (case f_write (replicate sz 0) f1 w1 of
                (f2, w2) \<Rightarrow> zero_passes n file_path f2 w2))"

fun random_passes :: "nat \<Rightarrow> string \<Rightarrow> fileobj \<Rightarrow> world \<Rightarrow> fileobj outcome" where
  "random_passes 0 file_path f w = Returned f w"
| "random_passes (Suc n) file_path f w =
     (let f1 = seek 0 f
      in case getsize file_path w of
           Raised e w1 \<Rightarrow> Raised e w1
         | Returned sz w1 \<Rightarrow>
             (case urandom sz w1 of
                (buf, w2) \<Rightarrow>
                  (case f_write buf f1 w2 of
                     (f2, w3) \<Rightarrow> random_passes n file_path f2 w3)))"

definition zero_fill :: "string \<Rightarrow> int \<Rightarrow> world \<Rightarrow> unit outcome" where
  "zero_fill file_path passes w =
     (case open_ab_plus file_path w of
        Raised e w1 \<Rightarrow> Raised e w1
      | Returned f w1 \<Rightarrow>
          (case zero_passes (nat passes) file_path f w1 of
             Raised e w2 \<Rightarrow> Raised e w2
           | Returned f2 w2 \<Rightarrow> Returned () w2))"

definition random_fill :: "string \<Rightarrow> int \<Rightarrow> world \<Rightarrow> unit outcome" where
  "random_fill file_path passes w =
     (case open_ab_plus file_path w of
        Raised e w1 \<Rightarrow> Raised e w1
      | Returned f w1 \<Rightarrow>
          (case random_passes (nat passes) file_path f w1 of
             Raised e w2 \<Rightarrow> Raised e w2
           | Returned f2 w2 \<Rightarrow> Returned () w2))"

definition dod_standard :: "string \<Rightarrow> world \<Rightarrow> unit outcome" where
  "dod_standard file_path w =
     (case open_ab_plus file_path w of
        Raised e w1 \<Rightarrow> Raised e w1
      | Returned f w1 \<Rightarrow>
          (case random_passes 3 file_path f w1 of
             Raised e w2 \<Rightarrow> Raised e w2
           | Returned f2 w2 \<Rightarrow> Returned () w2))"

text \<open>
  \<^verbatim>\<open>
  def aes_wipe(self):
      key = os.urandom(32)
      iv = os.urandom(16)
      cipher = Cipher(algorithms.AES(key), modes.CFB(iv), backend=default_backend())
      encryptor = cipher.encryptor()
      with open(self.file_path, "ba+", buffering=0) as f:
          f.seek(0)
          data = f.read()
          encrypted_data = encryptor.update(data) + encryptor.finalize()
          f.seek(0)
          f.write(encrypted_data)
  \<close>
  The cipher comes from the \<^verbatim>\<open>cryptography\<close> package, which is no part of the
  repository: it is a parameter \<open>aes_cfb key iv data\<close>.
\<close>

type_synonym cipher = "byte list \<Rightarrow> byte list \<Rightarrow> byte list \<Rightarrow> byte list"

definition aes_wipe :: "cipher \<Rightarrow> string \<Rightarrow> world \<Rightarrow> unit outcome" where
  "aes_wipe aes_cfb file_path w =
     (case urandom 32 w of
        (key, w1) \<Rightarrow>
          (case urandom 16 w1 of
             (iv, w2) \<Rightarrow>
               (case open_ab_plus file_path w2 of
                  Raised e w3 \<Rightarrow> Raised e w3
                | Returned f w3 \<Rightarrow>
                    (case f_read (seek 0 f) w3 of
                       (data, f2) \<Rightarrow>
                         (case f_write (aes_cfb key iv data) (seek 0 f2) w3 of
                            (f3, w4) \<Rightarrow> Returned () w4)))))"

text \<open>
  \<^verbatim>\<open>
  def run(self):
      if self.method == 'zero':
          self.zero_fill()
      elif self.method == 'random':
          self.random_fill()
      elif self.method == 'dod':
          self.dod_standard()
      elif self.method == 'aes':
          self.aes_wipe()
      os.remove(self.file_path)
  \<close>
\<close>

definition overwrite :: "cipher \<Rightarrow> string \<Rightarrow> string \<Rightarrow> int \<Rightarrow> world \<Rightarrow> unit outcome" where
  \<comment> \<open>the \<^verbatim>\<open>if\<close>/\<^verbatim>\<open>elif\<close> chain of \<^verbatim>\<open>run\<close>\<close>
  "overwrite aes_cfb file_path method passes w =
     (if method = ''zero'' then zero_fill file_path passes w
      else if method = ''random'' then random_fill file_path passes w
      else if method = ''dod'' then dod_standard file_path w
      else if method = ''aes'' then aes_wipe aes_cfb file_path w
      else Returned () w)"

definition run :: "cipher \<Rightarrow> string \<Rightarrow> string \<Rightarrow> int \<Rightarrow> world \<Rightarrow> unit outcome" where
  "run aes_cfb file_path method passes w =
     (case overwrite aes_cfb file_path method passes w of
        Raised e w1 \<Rightarrow> Raised e w1
      | Returned u w1 \<Rightarrow> os_remove file_path w1)"

section \<open>The caller: ShredSpaceApp.secure_delete_file\<close>

text \<open>
  \<^verbatim>\<open>
  def get_selected_file(self):
      return self.selected_file if self.selected_file else None

  def secure_delete_file(self):
      selected_file = self.get_selected_file()
      if selected_file:
          file_path = os.path.join(self.current_directory, selected_file)
          method = self.settings.get('secure_delete_method', 'dod')
          passes = self.passes_slider.value()

          if not self.validate_passes(passes):
              return

          self.progress_bar.setValue(0)

          self.secure_delete_thread = SecureDeleteThread(file_path, method, passes)
          self.secure_delete_thread.progress.connect(self.progress_bar.setValue)
          self.secure_delete_thread.finished.connect(self.on_secure_delete_finished)
          self.secure_delete_thread.start()

  def validate_passes(self, passes):
      if not (1 <= passes <= 99):
          QMessageBox.warning(self, "Invalid Input", "Number of passes must be between 1 and 99.")
          return False
      return True
  \<close>
  The attribute \<^verbatim>\<open>self.selected_file\<close> is \<^verbatim>\<open>None\<close> or a string; the empty string counts
  as no selection. The warning dialog is the value \<open>InvalidInput\<close>.
  \<^verbatim>\<open>SecureDeleteThread\<close> declares no \<^verbatim>\<open>progress\<close> signal, so with a valid pass count
  the thread object is built and the next line raises \<^verbatim>\<open>AttributeError\<close>: the method is
  left before \<^verbatim>\<open>start()\<close>, and the thread built from the path, the method and the pass
  count never runs.
\<close>

definition validate_passes :: "int \<Rightarrow> bool" where
  "validate_passes passes = (1 \<le> passes \<and> passes \<le> 99)"

definition path_join :: "string \<Rightarrow> string \<Rightarrow> string" where
  \<comment> \<open>\<^verbatim>\<open>os.path.join\<close> of two components on POSIX\<close>
  "path_join a b =
     (if b \<noteq> [] \<and> hd b = CHR ''/'' then b
      else if a = [] \<or> last a = CHR ''/'' then a @ b
      else a @ ''/'' @ b)"

definition get_selected_file :: "string option \<Rightarrow> string option" where
  "get_selected_file selected_file =
     (case selected_file of
        None \<Rightarrow> None
      | Some name \<Rightarrow> if name = [] then None else Some name)"

datatype request = NothingSelected | InvalidInput | AttributeError string string int

definition secure_delete_file ::
  "string \<Rightarrow> string option \<Rightarrow> (string \<rightharpoonup> string) \<Rightarrow> int \<Rightarrow> world \<Rightarrow> request \<times> world" where
  "secure_delete_file current_directory selected_file settings passes w =
     (case get_selected_file selected_file of
        None \<Rightarrow> (NothingSelected, w)
      | Some name \<Rightarrow>
          (let file_path = path_join current_directory name;
               method = (case settings ''secure_delete_method'' of
                           None \<Rightarrow> ''dod'' | Some m \<Rightarrow> m)
           in if \<not> validate_passes passes then (InvalidInput, w)
              else (AttributeError file_path method passes, w)))"

section \<open>Reference formula and example inputs\<close>

text \<open>
  The progress formula as the specification words it,
  \<^verbatim>\<open>round((index+1) / total_visible_files * 100)\<close>, for comparison with
  \<^const>\<open>progress_value\<close>.
\<close>

definition spec_progress :: "nat \<Rightarrow> nat \<Rightarrow> int" where
  "spec_progress index n = round (of_nat (index + 1) / of_nat n * (100 :: rat))"

text \<open>
  The directory \<^verbatim>\<open>/tmp/d\<close> of the specification's scenario, \<^verbatim>\<open>a.txt\<close> (10 bytes),
  \<^verbatim>\<open>.hidden\<close> (5 bytes) and the sub-directory \<^verbatim>\<open>b\<close>, enumerated with the hidden file
  first; a directory of three empty visible files; and a directory holding only a hidden
  file.
\<close>

definition tmp_d :: directory where
  "tmp_d = [(''.hidden'', RegularFile (replicate 5 0) True),
            (''a.txt'', RegularFile (replicate 10 0) True),
            (''b'', Directory)]"

definition three_files :: directory where
  "three_files = [(''a'', RegularFile [] True), (''b'', RegularFile [] True),
                  (''c'', RegularFile [] True)]"

definition only_hidden :: directory where
  "only_hidden = [(''.hidden'', RegularFile (replicate 5 0) True)]"


text \<open>
  The exception an outcome carries, if any.
\<close>

fun raised :: "'a outcome \<Rightarrow> oserror option" where
  "raised (Raised e w) = Some e"
| "raised (Returned x w) = None"

text \<open>
  The value an outcome returns, if any.
\<close>

fun returned :: "'a outcome \<Rightarrow> 'a option" where
  "returned (Raised e w) = None"
| "returned (Returned x w) = Some x"

text \<open>
  Example worlds: one accessible file in a directory that admits removal; the same file in
  a directory that does not; and a file the process may not open. The random source hands
  out the bytes 0, 1, 2, ... in turn. \<open>unused_cipher\<close> stands in for the cipher where the
  AES branch is not taken.
\<close>

definition single_file_world :: "string \<Rightarrow> byte list \<Rightarrow> world" where
  "single_file_world p c =
     \<lparr>files = [p \<mapsto> RegularFile c True], dir_writable = True,
      entropy = (\<lambda>i. of_nat i), consumed = 0, written = []\<rparr>"

definition readonly_dir_world :: "string \<Rightarrow> byte list \<Rightarrow> world" where
  "readonly_dir_world p c = (single_file_world p c)\<lparr>dir_writable := False\<rparr>"

definition locked_file_world :: "string \<Rightarrow> byte list \<Rightarrow> world" where
  "locked_file_world p c =
     \<lparr>files = [p \<mapsto> RegularFile c False], dir_writable = True,
      entropy = (\<lambda>i. of_nat i), consumed = 0, written = []\<rparr>"

definition unused_cipher :: cipher where
  "unused_cipher key iv data = data"

section \<open>Properties of the scanner\<close>

lemma scan_loop_file_names:
  "file_names (scan_loop d inc i ns st) =
     file_names st @ filter (\<lambda>f. \<not> startswith_dot f \<and> isfile d f) ns"
  by (induction ns arbitrary: i st) (simp_all add: Let_def)

lemma scan_loop_file_sizes:
  "file_sizes (scan_loop d inc i ns st) =
     file_sizes st @ map (st_size d) (filter (\<lambda>f. \<not> startswith_dot f \<and> isfile d f) ns)"
  by (induction ns arbitrary: i st) (simp_all add: Let_def)

lemma scan_loop_emitted:
  "\<exists>ps. emitted (scan_loop d inc i ns st) = emitted st @ map Progress ps \<and>
        length ps = length (filter (\<lambda>f. \<not> startswith_dot f) ns)"
proof (induction ns arbitrary: i st)
  case Nil
  show ?case by simp
next
  case (Cons f ns)
  show ?case
  proof (cases "startswith_dot f")
    case True
    with Cons.IH [of "i + 1" st] show ?thesis by simp
  next
    case False
    define st2 where "st2 = (if isfile d f
                   then st\<lparr>file_sizes := file_sizes st @ [st_size d f],
                           file_names := file_names st @ [f]\<rparr>
                   else st)\<lparr>emitted := emitted st @ [Progress (progress_value i inc)]\<rparr>"
    have step: "scan_loop d inc i (f # ns) st = scan_loop d inc (i + 1) ns st2"
      using False by (simp add: st2_def Let_def)
    have em: "emitted st2 = emitted st @ [Progress (progress_value i inc)]"
      by (simp add: st2_def)
    from Cons.IH [of "i + 1" st2] obtain ps where
      ps: "emitted (scan_loop d inc (i + 1) ns st2) = emitted st2 @ map Progress ps"
          "length ps = length (filter (\<lambda>f. \<not> startswith_dot f) ns)"
      by blast
    have "emitted (scan_loop d inc i (f # ns) st) =
            emitted st @ map Progress (progress_value i inc # ps)"
      using step ps(1) em by simp
    moreover have "length (progress_value i inc # ps) =
            length (filter (\<lambda>f. \<not> startswith_dot f) (f # ns))"
      using ps(2) False by simp
    ultimately show ?thesis by blast
  qed
qed

lemma scan_loop_emitted_visible:
  "\<forall>f\<in>set ns. \<not> startswith_dot f \<Longrightarrow>
     emitted (scan_loop d inc i ns st) =
       emitted st @ map (\<lambda>k. Progress (progress_value k inc)) [i ..< i + length ns]"
proof (induction ns arbitrary: i st)
  case Nil
  show ?case by simp
next
  case (Cons f ns)
  have nf: "\<not> startswith_dot f" and rest: "\<forall>f\<in>set ns. \<not> startswith_dot f"
    using Cons.prems by simp_all
  have upt: "[i ..< i + length (f # ns)] = i # [i + 1 ..< (i + 1) + length ns]"
    by (simp add: upt_rec)
  show ?case
    unfolding upt using nf Cons.IH [OF rest, of "i + 1"] by (simp add: Let_def)
qed

lemma scanner_run_shape:
  "\<exists>ps. scanner_run d =
          map Progress ps @
          [Result (map (\<lambda>f. (f, st_size d f))
                    (filter (\<lambda>f. \<not> startswith_dot f \<and> isfile d f) (listdir d)))] \<and>
        length ps = total_files d"
proof -
  let ?st0 = "\<lparr>file_sizes = [], file_names = [], emitted = []\<rparr>"
  let ?inc = "increment (total_files d)"
  from scan_loop_emitted [of d ?inc 0 "listdir d" ?st0] obtain ps where
    ps: "emitted (scan_loop d ?inc 0 (listdir d) ?st0) = map Progress ps"
        "length ps = total_files d"
    by (auto simp: total_files_def)
  have "zip (file_names (scan_loop d ?inc 0 (listdir d) ?st0))
            (file_sizes (scan_loop d ?inc 0 (listdir d) ?st0)) =
        map (\<lambda>f. (f, st_size d f))
          (filter (\<lambda>f. \<not> startswith_dot f \<and> isfile d f) (listdir d))"
    by (simp add: scan_loop_file_names scan_loop_file_sizes zip_map2 zip_same_conv_map)
  with ps show ?thesis
    by (auto simp: scanner_run_def Let_def)
qed


text \<open>
  C7. The result of a scan never holds a hidden file or a sub-directory: every row of the
  emitted data frame names a listed entry whose name does not start with a dot and that is
  a regular file, with the size \<^verbatim>\<open>stat\<close> reports for it.
\<close>

theorem scan_result_only_visible_regular_files:
  assumes "Result df \<in> set (scanner_run d)" and "(name, sz) \<in> set df"
  shows "\<not> startswith_dot name \<and> name \<in> set (listdir d) \<and>
         (\<exists>c a. map_of d name = Some (RegularFile c a) \<and> sz = length c) \<and>
         map_of d name \<noteq> Some Directory"
proof -
  from scanner_run_shape [of d] obtain ps where
    run: "scanner_run d =
            map Progress ps @
            [Result (map (\<lambda>f. (f, st_size d f))
                      (filter (\<lambda>f. \<not> startswith_dot f \<and> isfile d f) (listdir d)))]"
    by blast
  from assms(1) have
    df: "df = map (\<lambda>f. (f, st_size d f))
                (filter (\<lambda>f. \<not> startswith_dot f \<and> isfile d f) (listdir d))"
    unfolding run by auto
  from assms(2) have mem: "name \<in> set (listdir d)" and vis: "\<not> startswith_dot name"
    and reg: "isfile d name" and size: "sz = st_size d name"
    unfolding df by auto
  from reg obtain c a where node: "map_of d name = Some (RegularFile c a)"
    by (auto simp: isfile_def split: option.splits node.splits)
  with size have "sz = length c"
    by (simp add: st_size_def)
  with mem vis node show ?thesis
    by simp
qed

theorem scan_result_only_visible_regular_files_witness:
  "Result [(''a.txt'', 10)] \<in> set (scanner_run tmp_d) \<and>
   \<not> startswith_dot ''a.txt'' \<and> ''a.txt'' \<in> set (listdir tmp_d) \<and>
   map_of tmp_d ''a.txt'' \<noteq> Some Directory"
proof -
  have h1: "Result [(''a.txt'', 10)] \<in> set (scanner_run tmp_d)"
    by code_simp
  have h2: "(''a.txt'', 10 :: nat) \<in> set [(''a.txt'', 10)]"
    by simp
  show ?thesis
    using h1 scan_result_only_visible_regular_files [OF h1 h2] by simp
qed

text \<open>
  C5, as the code has it. A scan emits one progress update for every entry whose name does
  not start with a dot, sub-directories included, and then exactly one result; the result
  holds exactly the visible regular files, in enumeration order, each with its
  \<^verbatim>\<open>stat\<close> size. When no listed name is hidden, the \<open>k\<close>-th update is the truncation
  \<^verbatim>\<open>int((k + 1) * increment)\<close>, with the increment taken over the non-hidden entries.
\<close>

theorem scan_progress_per_nonhidden_entry:
  "\<exists>ps. scanner_run d =
          map Progress ps @
          [Result (map (\<lambda>f. (f, st_size d f))
                    (filter (\<lambda>f. \<not> startswith_dot f \<and> isfile d f) (listdir d)))] \<and>
        length ps = total_files d \<and>
        ((\<forall>f\<in>set (listdir d). \<not> startswith_dot f) \<longrightarrow>
           ps = map (\<lambda>k. progress_value k (increment (total_files d)))
                  [0 ..< length (listdir d)])"
proof -
  from scanner_run_shape [of d] obtain ps where
    run: "scanner_run d =
            map Progress ps @
            [Result (map (\<lambda>f. (f, st_size d f))
                      (filter (\<lambda>f. \<not> startswith_dot f \<and> isfile d f) (listdir d)))]"
    and len: "length ps = total_files d"
    by blast
  have "ps = map (\<lambda>k. progress_value k (increment (total_files d)))
               [0 ..< length (listdir d)]"
    if vis: "\<forall>f\<in>set (listdir d). \<not> startswith_dot f"
  proof -
    have "emitted (scan_loop d (increment (total_files d)) 0 (listdir d)
                     \<lparr>file_sizes = [], file_names = [], emitted = []\<rparr>) =
          map (\<lambda>k. Progress (progress_value k (increment (total_files d))))
            [0 ..< length (listdir d)]"
      using scan_loop_emitted_visible [OF vis, of d "increment (total_files d)" 0
              "\<lparr>file_sizes = [], file_names = [], emitted = []\<rparr>"]
      by simp
    then have "scanner_run d =
          map Progress (map (\<lambda>k. progress_value k (increment (total_files d)))
            [0 ..< length (listdir d)]) @
          [Result (zip (file_names (scan_loop d (increment (total_files d)) 0 (listdir d)
                     \<lparr>file_sizes = [], file_names = [], emitted = []\<rparr>))
                   (file_sizes (scan_loop d (increment (total_files d)) 0 (listdir d)
                     \<lparr>file_sizes = [], file_names = [], emitted = []\<rparr>)))]"
      by (simp add: scanner_run_def Let_def comp_def)
    with run have "map Progress ps =
          map Progress (map (\<lambda>k. progress_value k (increment (total_files d)))
            [0 ..< length (listdir d)])"
      by (simp add: append_eq_append_conv len total_files_def)
    then show ?thesis
      by (rule map_injective) (simp add: inj_def)
  qed
  with run len show ?thesis
    by blast
qed

theorem scan_progress_per_nonhidden_entry_witness:
  "list_all (\<lambda>f. \<not> startswith_dot f) (listdir three_files) \<and>
   scanner_run three_files =
     [Progress 33, Progress 66, Progress 100, Result [(''a'', 0), (''b'', 0), (''c'', 0)]]"
proof -
  have vis: "\<forall>f\<in>set (listdir three_files). \<not> startswith_dot f"
    by code_simp
  have run: "scanner_run three_files =
     [Progress 33, Progress 66, Progress 100, Result [(''a'', 0), (''b'', 0), (''c'', 0)]]"
    by code_simp
  from scan_progress_per_nonhidden_entry [of three_files] vis obtain ps where
    "scanner_run three_files =
          map Progress ps @
          [Result (map (\<lambda>f. (f, st_size three_files f))
                    (filter (\<lambda>f. \<not> startswith_dot f \<and> isfile three_files f)
                       (listdir three_files)))]"
    "ps = map (\<lambda>k. progress_value k (increment (total_files three_files)))
                  [0 ..< length (listdir three_files)]"
    by blast
  with vis run show ?thesis
    by (simp add: list_all_iff)
qed

text \<open>
  C5, as stated, fails. In \<^verbatim>\<open>/tmp/d\<close> there is one visible regular file, yet the scan emits
  two progress updates, the second for the sub-directory, and the last one is 150: the index
  counts the hidden entry that precedes. With three visible files the second update is 66,
  where rounding would give 67.
\<close>

theorem scan_progress_counterexample:
  "scanner_run tmp_d = [Progress 100, Progress 150, Result [(''a.txt'', 10)]] \<and>
   scanner_run three_files =
     [Progress 33, Progress 66, Progress 100, Result [(''a'', 0), (''b'', 0), (''c'', 0)]] \<and>
   spec_progress 1 3 = 67"
  by code_simp

text \<open>
  C6, as the code has it. In a directory without any non-hidden entry the increment is 1,
  so nothing is divided by zero; the scan emits no progress update at all, and its only
  signal is the empty result.
\<close>

theorem scan_without_visible_entries:
  assumes "total_files d = 0"
  shows "increment (total_files d) = 1 \<and> scanner_run d = [Result []]"
proof -
  from assms have none: "filter (\<lambda>f. \<not> startswith_dot f) (listdir d) = []"
    by (simp add: total_files_def)
  then have "filter (\<lambda>f. \<not> startswith_dot f \<and> isfile d f) (listdir d) = []"
    by (auto simp: filter_empty_conv)
  moreover from scanner_run_shape [of d] obtain ps where
    "scanner_run d =
       map Progress ps @
       [Result (map (\<lambda>f. (f, st_size d f))
                 (filter (\<lambda>f. \<not> startswith_dot f \<and> isfile d f) (listdir d)))]"
    "length ps = total_files d"
    by blast
  ultimately have "scanner_run d = [Result []]"
    using assms by simp
  then show ?thesis
    using assms by (simp add: increment_def)
qed

theorem scan_without_visible_entries_witness:
  "total_files only_hidden = 0 \<and> increment (total_files only_hidden) = 1 \<and>
   scanner_run only_hidden = [Result []]"
proof -
  have h: "total_files only_hidden = 0"
    by code_simp
  show ?thesis
    using h scan_without_visible_entries [OF h] by simp
qed

text \<open>
  C6, as stated, fails: neither the empty directory nor a directory holding only a hidden
  file makes the scan emit a progress update of 100.
\<close>

theorem scan_without_visible_entries_counterexample:
  "scanner_run [] = [Result []] \<and> scanner_run only_hidden = [Result []] \<and>
   Progress 100 \<notin> set (scanner_run only_hidden)"
  by code_simp

text \<open>
  The last update of a scan is not always 100, even without hidden entries: with 97
  non-hidden entries the product \<^verbatim>\<open>97 * (100 / 97)\<close> rounds to a double just below 100.
\<close>

lemma last_update_of_97_entries: "progress_value 96 (increment 97) = 99"
  by code_simp

section \<open>Properties of the eraser\<close>

lemma zero_passes_appends:
  "files w p = Some (RegularFile c a) \<Longrightarrow> f_path f = p \<Longrightarrow>
   \<exists>f' w' bufs. zero_passes n p f w = Returned f' w' \<and>
     written w' = written w @ bufs \<and> length bufs = n \<and>
     (\<forall>k<n. bufs ! k =
        replicate (length c + length (concat (map (take MAX_RW_COUNT) (take k bufs)))) 0) \<and>
     files w' = (files w)(p \<mapsto> RegularFile (c @ concat (map (take MAX_RW_COUNT) bufs)) a) \<and>
     dir_writable w' = dir_writable w"
proof (induction n arbitrary: f w c)
  case 0
  then show ?case by auto
next
  case (Suc n)
  let ?buf = "replicate (length c) (0::byte)"
  let ?c1 = "c @ take MAX_RW_COUNT ?buf"
  let ?f1 = "(seek 0 f)\<lparr>f_pos := length c + length (take MAX_RW_COUNT ?buf)\<rparr>"
  let ?w1 = "w\<lparr>files := (files w)(p \<mapsto> RegularFile ?c1 a),
               written := written w @ [?buf]\<rparr>"
  have step: "zero_passes (Suc n) p f w = zero_passes n p ?f1 ?w1"
    using Suc.prems by (simp add: getsize_def f_write_def seek_def)
  have pre: "files ?w1 p = Some (RegularFile ?c1 a)" "f_path ?f1 = p"
    using Suc.prems by (simp_all add: seek_def)
  from Suc.IH [OF pre] obtain f' w' bufs where
    r: "zero_passes n p ?f1 ?w1 = Returned f' w'"
       "written w' = written ?w1 @ bufs" "length bufs = n"
       "\<forall>k<n. bufs ! k =
          replicate (length ?c1 + length (concat (map (take MAX_RW_COUNT) (take k bufs)))) 0"
       "files w' = (files ?w1)(p \<mapsto> RegularFile (?c1 @ concat (map (take MAX_RW_COUNT) bufs)) a)"
       "dir_writable w' = dir_writable ?w1"
    by blast
  have a1: "zero_passes (Suc n) p f w = Returned f' w'"
    using step r(1) by simp
  have a2: "written w' = written w @ (?buf # bufs)"
    using r(2) by simp
  have a3: "length (?buf # bufs) = Suc n"
    using r(3) by simp
  have a4: "\<forall>k<Suc n. (?buf # bufs) ! k =
          replicate (length c +
            length (concat (map (take MAX_RW_COUNT) (take k (?buf # bufs))))) 0"
  proof (intro allI impI)
    fix k assume k: "k < Suc n"
    show "(?buf # bufs) ! k =
          replicate (length c +
            length (concat (map (take MAX_RW_COUNT) (take k (?buf # bufs))))) 0"
    proof (cases k)
      case 0
      then show ?thesis by simp
    next
      case (Suc j)
      with k have "j < n" by simp
      with r(4) have "bufs ! j =
          replicate (length ?c1 + length (concat (map (take MAX_RW_COUNT) (take j bufs)))) 0"
        by blast
      with Suc show ?thesis by (simp add: add.assoc)
    qed
  qed
  have a5: "files w' =
      (files w)(p \<mapsto> RegularFile (c @ concat (map (take MAX_RW_COUNT) (?buf # bufs))) a)"
    using r(5) by simp
  have a6: "dir_writable w' = dir_writable w"
    using r(6) by simp
  show ?case
    by (rule exI [of _ f'], rule exI [of _ w'], rule exI [of _ "?buf # bufs"])
       (intro conjI a1 a2 a3 a4 a5 a6)
qed

lemma zero_passes_doubling:
  "files w p = Some (RegularFile c a) \<Longrightarrow> f_path f = p \<Longrightarrow>
   n = 0 \<or> length c * 2 ^ (n - 1) \<le> MAX_RW_COUNT \<Longrightarrow>
   \<exists>f' w' c'. zero_passes n p f w = Returned f' w' \<and>
     files w' p = Some (RegularFile c' a) \<and> length c' = length c * 2 ^ n"
proof (induction n arbitrary: f w c)
  case 0
  then show ?case by auto
next
  case (Suc n)
  let ?buf = "replicate (length c) (0::byte)"
  let ?c1 = "c @ ?buf"
  let ?f1 = "(seek 0 f)\<lparr>f_pos := length c + length ?buf\<rparr>"
  let ?w1 = "w\<lparr>files := (files w)(p \<mapsto> RegularFile ?c1 a),
               written := written w @ [?buf]\<rparr>"
  from Suc.prems(3) have bound: "length c * 2 ^ n \<le> MAX_RW_COUNT"
    by simp
  have "length c \<le> length c * 2 ^ n"
    by simp
  from this bound have small: "length c \<le> MAX_RW_COUNT"
    by (rule order_trans)
  then have whole: "min MAX_RW_COUNT (length c) = length c"
    by simp
  have step: "zero_passes (Suc n) p f w = zero_passes n p ?f1 ?w1"
    using Suc.prems(1,2) by (simp add: getsize_def f_write_def seek_def whole)
  have pre: "files ?w1 p = Some (RegularFile ?c1 a)" "f_path ?f1 = p"
    using Suc.prems(1,2) by (simp_all add: seek_def)
  have next_bound: "n = 0 \<or> length ?c1 * 2 ^ (n - 1) \<le> MAX_RW_COUNT"
  proof (cases n)
    case 0
    then show ?thesis by simp
  next
    case (Suc m)
    have "length ?c1 * 2 ^ (n - 1) = length c * 2 ^ n"
      using Suc by (simp add: algebra_simps)
    with bound show ?thesis by simp
  qed
  from Suc.IH [OF pre next_bound] obtain f' w' c' where
    r: "zero_passes n p ?f1 ?w1 = Returned f' w'"
       "files w' p = Some (RegularFile c' a)" "length c' = length ?c1 * 2 ^ n"
    by blast
  have a1: "zero_passes (Suc n) p f w = Returned f' w'"
    using step r(1) by simp
  have a3: "length c' = length c * 2 ^ Suc n"
    using r(3) by simp
  show ?case
    by (rule exI [of _ f'], rule exI [of _ w'], rule exI [of _ c'])
       (intro conjI a1 r(2) a3)
qed

lemma random_passes_appends:
  "files w p = Some (RegularFile c a) \<Longrightarrow> f_path f = p \<Longrightarrow>
   \<exists>f' w' bufs. random_passes n p f w = Returned f' w' \<and>
     written w' = written w @ bufs \<and> length bufs = n \<and>
     (\<forall>k<n. bufs ! k =
        map (entropy w)
          [consumed w + length (concat (take k bufs)) ..<
           consumed w + length (concat (take k bufs)) +
             (length c + length (concat (map (take MAX_RW_COUNT) (take k bufs))))]) \<and>
     files w' = (files w)(p \<mapsto> RegularFile (c @ concat (map (take MAX_RW_COUNT) bufs)) a) \<and>
     dir_writable w' = dir_writable w"
proof (induction n arbitrary: f w c)
  case 0
  then show ?case by auto
next
  case (Suc n)
  let ?buf = "map (entropy w) [consumed w ..< consumed w + length c]"
  let ?c1 = "c @ take MAX_RW_COUNT ?buf"
  let ?f1 = "(seek 0 f)\<lparr>f_pos := length c + length (take MAX_RW_COUNT ?buf)\<rparr>"
  let ?w1 = "w\<lparr>consumed := consumed w + length c,
               files := (files w)(p \<mapsto> RegularFile ?c1 a),
               written := written w @ [?buf]\<rparr>"
  have step: "random_passes (Suc n) p f w = random_passes n p ?f1 ?w1"
    using Suc.prems by (simp add: getsize_def urandom_def f_write_def seek_def)
  have pre: "files ?w1 p = Some (RegularFile ?c1 a)" "f_path ?f1 = p"
    using Suc.prems by (simp_all add: seek_def)
  from Suc.IH [OF pre] obtain f' w' bufs where
    r: "random_passes n p ?f1 ?w1 = Returned f' w'"
       "written w' = written ?w1 @ bufs" "length bufs = n"
       "\<forall>k<n. bufs ! k =
          map (entropy ?w1)
            [consumed ?w1 + length (concat (take k bufs)) ..<
             consumed ?w1 + length (concat (take k bufs)) +
               (length ?c1 + length (concat (map (take MAX_RW_COUNT) (take k bufs))))]"
       "files w' = (files ?w1)(p \<mapsto> RegularFile (?c1 @ concat (map (take MAX_RW_COUNT) bufs)) a)"
       "dir_writable w' = dir_writable ?w1"
    by blast
  have a1: "random_passes (Suc n) p f w = Returned f' w'"
    using step r(1) by simp
  have a2: "written w' = written w @ (?buf # bufs)"
    using r(2) by simp
  have a3: "length (?buf # bufs) = Suc n"
    using r(3) by simp
  have a4: "\<forall>k<Suc n. (?buf # bufs) ! k =
          map (entropy w)
            [consumed w + length (concat (take k (?buf # bufs))) ..<
             consumed w + length (concat (take k (?buf # bufs))) +
               (length c +
                length (concat (map (take MAX_RW_COUNT) (take k (?buf # bufs)))))]"
  proof (intro allI impI)
    fix k assume k: "k < Suc n"
    show "(?buf # bufs) ! k =
          map (entropy w)
            [consumed w + length (concat (take k (?buf # bufs))) ..<
             consumed w + length (concat (take k (?buf # bufs))) +
               (length c +
                length (concat (map (take MAX_RW_COUNT) (take k (?buf # bufs)))))]"
    proof (cases k)
      case 0
      then show ?thesis by simp
    next
      case (Suc j)
      with k have "j < n" by simp
      with r(4) have "bufs ! j =
          map (entropy ?w1)
            [consumed ?w1 + length (concat (take j bufs)) ..<
             consumed ?w1 + length (concat (take j bufs)) +
               (length ?c1 + length (concat (map (take MAX_RW_COUNT) (take j bufs))))]"
        by blast
      with Suc show ?thesis by (simp add: add.assoc)
    qed
  qed
  have a5: "files w' =
      (files w)(p \<mapsto> RegularFile (c @ concat (map (take MAX_RW_COUNT) (?buf # bufs))) a)"
    using r(5) by simp
  have a6: "dir_writable w' = dir_writable w"
    using r(6) by simp
  show ?case
    by (rule exI [of _ f'], rule exI [of _ w'], rule exI [of _ "?buf # bufs"])
       (intro conjI a1 a2 a3 a4 a5 a6)
qed

lemma open_existing:
  "files w p = Some (RegularFile c True) \<Longrightarrow>
     open_ab_plus p w = Returned \<lparr>f_path = p, f_pos = length c\<rparr> w"
  by (simp add: open_ab_plus_def)

lemma zero_fill_appends:
  assumes "files w p = Some (RegularFile c True)"
  shows "\<exists>w' bufs. zero_fill p passes w = Returned () w' \<and>
           written w' = written w @ bufs \<and> length bufs = nat passes \<and>
           (\<forall>k<nat passes. bufs ! k =
              replicate (length c +
                length (concat (map (take MAX_RW_COUNT) (take k bufs)))) 0) \<and>
           files w' =
             (files w)(p \<mapsto> RegularFile (c @ concat (map (take MAX_RW_COUNT) bufs)) True) \<and>
           dir_writable w' = dir_writable w"
proof -
  from zero_passes_appends [OF assms, of "\<lparr>f_path = p, f_pos = length c\<rparr>" "nat passes"]
  obtain f' w' bufs where
    r: "zero_passes (nat passes) p \<lparr>f_path = p, f_pos = length c\<rparr> w = Returned f' w'"
       "written w' = written w @ bufs" "length bufs = nat passes"
       "\<forall>k<nat passes. bufs ! k =
          replicate (length c + length (concat (map (take MAX_RW_COUNT) (take k bufs)))) 0"
       "files w' =
          (files w)(p \<mapsto> RegularFile (c @ concat (map (take MAX_RW_COUNT) bufs)) True)"
       "dir_writable w' = dir_writable w"
    by auto
  have a1: "zero_fill p passes w = Returned () w'"
    using open_existing [OF assms] r(1) by (simp add: zero_fill_def)
  show ?thesis
    by (rule exI [of _ w'], rule exI [of _ bufs]) (intro conjI a1 r(2-6))
qed

lemma zero_fill_doubling:
  assumes "files w p = Some (RegularFile c True)"
    and "nat passes = 0 \<or> length c * 2 ^ (nat passes - 1) \<le> MAX_RW_COUNT"
  shows "\<exists>w' c'. zero_fill p passes w = Returned () w' \<and>
           files w' p = Some (RegularFile c' True) \<and>
           length c' = length c * 2 ^ nat passes"
proof -
  from zero_passes_doubling
         [OF assms(1) _ assms(2), of "\<lparr>f_path = p, f_pos = length c\<rparr>"]
  obtain f' w' c' where
    r: "zero_passes (nat passes) p \<lparr>f_path = p, f_pos = length c\<rparr> w = Returned f' w'"
       "files w' p = Some (RegularFile c' True)" "length c' = length c * 2 ^ nat passes"
    by auto
  have a1: "zero_fill p passes w = Returned () w'"
    using open_existing [OF assms(1)] r(1) by (simp add: zero_fill_def)
  show ?thesis
    by (rule exI [of _ w'], rule exI [of _ c']) (intro conjI a1 r(2,3))
qed

lemma random_fill_appends:
  assumes "files w p = Some (RegularFile c True)"
  shows "\<exists>w' bufs. random_fill p passes w = Returned () w' \<and>
           written w' = written w @ bufs \<and> length bufs = nat passes \<and>
           (\<forall>k<nat passes. bufs ! k =
              map (entropy w)
                [consumed w + length (concat (take k bufs)) ..<
                 consumed w + length (concat (take k bufs)) +
                   (length c + length (concat (map (take MAX_RW_COUNT) (take k bufs))))]) \<and>
           files w' =
             (files w)(p \<mapsto> RegularFile (c @ concat (map (take MAX_RW_COUNT) bufs)) True) \<and>
           dir_writable w' = dir_writable w"
proof -
  from random_passes_appends [OF assms, of "\<lparr>f_path = p, f_pos = length c\<rparr>" "nat passes"]
  obtain f' w' bufs where
    r: "random_passes (nat passes) p \<lparr>f_path = p, f_pos = length c\<rparr> w = Returned f' w'"
       "written w' = written w @ bufs" "length bufs = nat passes"
       "\<forall>k<nat passes. bufs ! k =
          map (entropy w)
            [consumed w + length (concat (take k bufs)) ..<
             consumed w + length (concat (take k bufs)) +
               (length c + length (concat (map (take MAX_RW_COUNT) (take k bufs))))]"
       "files w' =
          (files w)(p \<mapsto> RegularFile (c @ concat (map (take MAX_RW_COUNT) bufs)) True)"
       "dir_writable w' = dir_writable w"
    by auto
  have a1: "random_fill p passes w = Returned () w'"
    using open_existing [OF assms] r(1) by (simp add: random_fill_def)
  show ?thesis
    by (rule exI [of _ w'], rule exI [of _ bufs]) (intro conjI a1 r(2-6))
qed

lemma dod_standard_appends:
  assumes "files w p = Some (RegularFile c True)"
  shows "\<exists>w' ext. dod_standard p w = Returned () w' \<and>
           files w' = (files w)(p \<mapsto> RegularFile (c @ ext) True) \<and>
           dir_writable w' = dir_writable w"
proof -
  from random_passes_appends [OF assms, of "\<lparr>f_path = p, f_pos = length c\<rparr>" 3]
  obtain f' w' bufs where
    r: "random_passes 3 p \<lparr>f_path = p, f_pos = length c\<rparr> w = Returned f' w'"
       "files w' =
          (files w)(p \<mapsto> RegularFile (c @ concat (map (take MAX_RW_COUNT) bufs)) True)"
       "dir_writable w' = dir_writable w"
    by auto
  have a1: "dod_standard p w = Returned () w'"
    using open_existing [OF assms] r(1) by (simp add: dod_standard_def)
  show ?thesis
    by (rule exI [of _ w'], rule exI [of _ "concat (map (take MAX_RW_COUNT) bufs)"])
       (intro conjI a1 r(2,3))
qed

lemma aes_wipe_appends:
  assumes "files w p = Some (RegularFile c True)"
  shows "aes_wipe aes_cfb p w =
           Returned ()
             (w\<lparr>consumed := consumed w + 32 + 16,
                files := (files w)(p \<mapsto> RegularFile
                   (c @ take MAX_RW_COUNT
                          (aes_cfb (map (entropy w) [consumed w ..< consumed w + 32])
                             (map (entropy w) [consumed w + 32 ..< consumed w + 32 + 16]) c))
                   True),
                written := written w @
                   [aes_cfb (map (entropy w) [consumed w ..< consumed w + 32])
                      (map (entropy w) [consumed w + 32 ..< consumed w + 32 + 16]) c]\<rparr>)"
  using assms
  by (simp add: aes_wipe_def urandom_def open_ab_plus_def f_read_def f_write_def seek_def)

lemma overwrite_appends:
  assumes "files w p = Some (RegularFile c True)"
  shows "\<exists>w' ext. overwrite aes_cfb p m passes w = Returned () w' \<and>
           files w' p = Some (RegularFile (c @ ext) True) \<and>
           dir_writable w' = dir_writable w"
proof -
  consider (zero) "m = ''zero''" | (random) "m = ''random''" | (dod) "m = ''dod''"
    | (aes) "m = ''aes''"
    | (other) "m \<noteq> ''zero''" "m \<noteq> ''random''" "m \<noteq> ''dod''" "m \<noteq> ''aes''"
    by blast
  then show ?thesis
  proof cases
    case zero
    from zero_fill_appends [OF assms, of passes] obtain w' bufs where
      "zero_fill p passes w = Returned () w'"
      "files w' =
         (files w)(p \<mapsto> RegularFile (c @ concat (map (take MAX_RW_COUNT) bufs)) True)"
      "dir_writable w' = dir_writable w"
      by blast
    with zero show ?thesis by (auto simp: overwrite_def)
  next
    case random
    from random_fill_appends [OF assms, of passes] obtain w' bufs where
      "random_fill p passes w = Returned () w'"
      "files w' =
         (files w)(p \<mapsto> RegularFile (c @ concat (map (take MAX_RW_COUNT) bufs)) True)"
      "dir_writable w' = dir_writable w"
      by blast
    with random show ?thesis by (auto simp: overwrite_def)
  next
    case dod
    from dod_standard_appends [OF assms] obtain w' ext where
      "dod_standard p w = Returned () w'"
      "files w' = (files w)(p \<mapsto> RegularFile (c @ ext) True)"
      "dir_writable w' = dir_writable w"
      by blast
    with dod show ?thesis by (auto simp: overwrite_def)
  next
    case aes
    then show ?thesis
      using aes_wipe_appends [OF assms, of aes_cfb] by (simp add: overwrite_def)
  next
    case other
    then have "overwrite aes_cfb p m passes w = Returned () w"
      by (simp add: overwrite_def)
    moreover have "files w p = Some (RegularFile (c @ []) True)"
      using assms by simp
    ultimately show ?thesis by blast
  qed
qed

lemma overwrite_refused:
  assumes "files w p = Some (RegularFile c False)"
  shows "\<exists>w'. (overwrite aes_cfb p m passes w = Raised PermissionError w' \<or>
               overwrite aes_cfb p m passes w = Returned () w') \<and>
              files w' = files w \<and> dir_writable w' = dir_writable w"
  using assms
  by (auto simp: overwrite_def zero_fill_def random_fill_def dod_standard_def aes_wipe_def
        open_ab_plus_def urandom_def)

text \<open>
  C1, as the code has it. The bound on the pass count is checked by the caller,
  \<^verbatim>\<open>secure_delete_file\<close>: with a file selected, a count outside 1..99 makes
  \<^verbatim>\<open>validate_passes\<close> fail, the request ends with the "Invalid Input" warning, no thread
  is created, and the world is left as it was, whatever the method.
\<close>

theorem invalid_passes_rejected_by_caller:
  assumes "passes < 1 \<or> 99 < passes" and "name \<noteq> []"
  shows "secure_delete_file current_directory (Some name) settings passes w =
           (InvalidInput, w)"
  using assms
  by (auto simp: secure_delete_file_def get_selected_file_def validate_passes_def Let_def)

theorem invalid_passes_rejected_by_caller_witness:
  "(0::int) < 1 \<and> ''a.txt'' \<noteq> [] \<and>
   secure_delete_file ''/tmp/d'' (Some ''a.txt'')
       [''secure_delete_method'' \<mapsto> ''zero''] 0 (single_file_world ''/tmp/d/a.txt'' [65]) =
     (InvalidInput, single_file_world ''/tmp/d/a.txt'' [65])"
proof -
  have h1: "(0::int) < 1 \<or> 99 < (0::int)"
    by simp
  have h2: "''a.txt'' \<noteq> []"
    by simp
  show ?thesis
    using invalid_passes_rejected_by_caller [OF h1 h2] by simp
qed

text \<open>
  C1, as stated, fails for the thread itself: \<^verbatim>\<open>run\<close> with method \<^verbatim>\<open>'zero'\<close> and
  \<^verbatim>\<open>passes = 0\<close> raises nothing, writes nothing, and removes the file.
\<close>

theorem zero_passes_request_counterexample:
  "raised (run unused_cipher ''a.txt'' ''zero'' 0 (single_file_world ''a.txt'' [65])) = None \<and>
   written (world_of (run unused_cipher ''a.txt'' ''zero'' 0
                        (single_file_world ''a.txt'' [65]))) = [] \<and>
   files (world_of (run unused_cipher ''a.txt'' ''zero'' 0
                      (single_file_world ''a.txt'' [65]))) ''a.txt'' = None"
  by (simp add: run_def overwrite_def zero_fill_def open_ab_plus_def os_remove_def
        single_file_world_def)

text \<open>
  C2 at a failing input: a one-byte file zero-filled in two passes. The first pass writes
  one zero byte, the second writes two, the file is four bytes long when it is removed, and
  its first byte is still the original one.
\<close>

theorem zero_fill_buffers_grow:
  "written (world_of (zero_fill ''a.txt'' 2 (single_file_world ''a.txt'' [65]))) =
     [[0], [0, 0]] \<and>
   files (world_of (zero_fill ''a.txt'' 2 (single_file_world ''a.txt'' [65]))) ''a.txt'' =
     Some (RegularFile [65, 0, 0, 0] True) \<and>
   files (world_of (run unused_cipher ''a.txt'' ''zero'' 2
                      (single_file_world ''a.txt'' [65]))) ''a.txt'' = None"
  by (simp add: run_def overwrite_def zero_fill_def open_ab_plus_def os_remove_def
        single_file_world_def getsize_def f_write_def seek_def MAX_RW_COUNT_def
        numeral_2_eq_2)

text \<open>
  C3, as the code has it. The file is opened for appending, so every pass of
  \<^verbatim>\<open>zero_fill\<close> and of \<^verbatim>\<open>random_fill\<close> lands after the bytes already there. There is
  one write for each pass; the buffer of a pass has the size the file has when the pass
  begins (zero bytes for \<^verbatim>\<open>zero_fill\<close>, the next bytes of the random source for
  \<^verbatim>\<open>random_fill\<close>), and the file grows by the part of the buffer one write transfers, at
  most \<open>MAX_RW_COUNT\<close> bytes. When the passes are over the file holds its original bytes
  followed by those parts, in order. For \<^verbatim>\<open>zero_fill\<close>, a file of \<open>S\<close> bytes has
  \<open>S * 2 ^ p\<close> bytes after \<open>p\<close> passes, its size when \<^verbatim>\<open>run\<close> goes on to remove it,
  provided the last buffer, of \<open>S * 2 ^ (p - 1)\<close> bytes, fits in one write.
\<close>

theorem append_mode_keeps_original_bytes:
  assumes "files w p = Some (RegularFile c True)"
  shows "(\<exists>w' bufs. zero_fill p passes w = Returned () w' \<and>
            written w' = written w @ bufs \<and> length bufs = nat passes \<and>
            (\<forall>k<nat passes. bufs ! k =
               replicate (length c +
                 length (concat (map (take MAX_RW_COUNT) (take k bufs)))) 0) \<and>
            files w' p =
              Some (RegularFile (c @ concat (map (take MAX_RW_COUNT) bufs)) True) \<and>
            (nat passes = 0 \<or> length c * 2 ^ (nat passes - 1) \<le> MAX_RW_COUNT \<longrightarrow>
               length (c @ concat (map (take MAX_RW_COUNT) bufs)) =
                 length c * 2 ^ nat passes)) \<and>
         (\<exists>w' bufs. random_fill p passes w = Returned () w' \<and>
            written w' = written w @ bufs \<and> length bufs = nat passes \<and>
            (\<forall>k<nat passes. bufs ! k =
               map (entropy w)
                 [consumed w + length (concat (take k bufs)) ..<
                  consumed w + length (concat (take k bufs)) +
                    (length c + length (concat (map (take MAX_RW_COUNT) (take k bufs))))]) \<and>
            files w' p =
              Some (RegularFile (c @ concat (map (take MAX_RW_COUNT) bufs)) True))"
proof (rule conjI)
  from zero_fill_appends [OF assms, of passes] obtain w' bufs where
    r: "zero_fill p passes w = Returned () w'" "written w' = written w @ bufs"
       "length bufs = nat passes"
       "\<forall>k<nat passes. bufs ! k =
          replicate (length c + length (concat (map (take MAX_RW_COUNT) (take k bufs)))) 0"
       "files w' =
          (files w)(p \<mapsto> RegularFile (c @ concat (map (take MAX_RW_COUNT) bufs)) True)"
    by blast
  from r(5) have f:
    "files w' p = Some (RegularFile (c @ concat (map (take MAX_RW_COUNT) bufs)) True)"
    by simp
  have d: "length (c @ concat (map (take MAX_RW_COUNT) bufs)) = length c * 2 ^ nat passes"
    if b: "nat passes = 0 \<or> length c * 2 ^ (nat passes - 1) \<le> MAX_RW_COUNT"
  proof -
    from zero_fill_doubling [OF assms b] obtain w'' c' where
      q: "zero_fill p passes w = Returned () w''" "files w'' p = Some (RegularFile c' True)"
         "length c' = length c * 2 ^ nat passes"
      by blast
    from q(1) r(1) have "w'' = w'"
      by simp
    with q(2) f have "c' = c @ concat (map (take MAX_RW_COUNT) bufs)"
      by simp
    with q(3) show ?thesis
      by simp
  qed
  then have d': "nat passes = 0 \<or> length c * 2 ^ (nat passes - 1) \<le> MAX_RW_COUNT \<longrightarrow>
       length (c @ concat (map (take MAX_RW_COUNT) bufs)) = length c * 2 ^ nat passes"
    by blast
  show "\<exists>w' bufs. zero_fill p passes w = Returned () w' \<and>
            written w' = written w @ bufs \<and> length bufs = nat passes \<and>
            (\<forall>k<nat passes. bufs ! k =
               replicate (length c +
                 length (concat (map (take MAX_RW_COUNT) (take k bufs)))) 0) \<and>
            files w' p =
              Some (RegularFile (c @ concat (map (take MAX_RW_COUNT) bufs)) True) \<and>
            (nat passes = 0 \<or> length c * 2 ^ (nat passes - 1) \<le> MAX_RW_COUNT \<longrightarrow>
               length (c @ concat (map (take MAX_RW_COUNT) bufs)) =
                 length c * 2 ^ nat passes)"
    by (rule exI [of _ w'], rule exI [of _ bufs]) (intro conjI r(1-4) f d')
next
  from random_fill_appends [OF assms, of passes] obtain w' bufs where
    r: "random_fill p passes w = Returned () w'" "written w' = written w @ bufs"
       "length bufs = nat passes"
       "\<forall>k<nat passes. bufs ! k =
          map (entropy w)
            [consumed w + length (concat (take k bufs)) ..<
             consumed w + length (concat (take k bufs)) +
               (length c + length (concat (map (take MAX_RW_COUNT) (take k bufs))))]"
       "files w' =
          (files w)(p \<mapsto> RegularFile (c @ concat (map (take MAX_RW_COUNT) bufs)) True)"
    by blast
  from r(5) have f:
    "files w' p = Some (RegularFile (c @ concat (map (take MAX_RW_COUNT) bufs)) True)"
    by simp
  show "\<exists>w' bufs. random_fill p passes w = Returned () w' \<and>
            written w' = written w @ bufs \<and> length bufs = nat passes \<and>
            (\<forall>k<nat passes. bufs ! k =
               map (entropy w)
                 [consumed w + length (concat (take k bufs)) ..<
                  consumed w + length (concat (take k bufs)) +
                    (length c + length (concat (map (take MAX_RW_COUNT) (take k bufs))))]) \<and>
            files w' p =
              Some (RegularFile (c @ concat (map (take MAX_RW_COUNT) bufs)) True)"
    by (rule exI [of _ w'], rule exI [of _ bufs]) (intro conjI r(1-4) f)
qed

theorem append_mode_keeps_original_bytes_witness:
  "files (single_file_world ''a.txt'' [65, 66]) ''a.txt'' = Some (RegularFile [65, 66] True) \<and>
   (nat 3 = 0 \<or> length [65 :: byte, 66] * 2 ^ (nat 3 - 1) \<le> MAX_RW_COUNT) \<and>
   (\<exists>w' bufs. zero_fill ''a.txt'' 3 (single_file_world ''a.txt'' [65, 66]) = Returned () w' \<and>
      bufs ! 0 = [0, 0] \<and>
      files w' ''a.txt'' =
        Some (RegularFile ([65, 66] @ concat (map (take MAX_RW_COUNT) bufs)) True) \<and>
      length ([65 :: byte, 66] @ concat (map (take MAX_RW_COUNT) bufs)) = 16) \<and>
   (\<exists>w' bufs. random_fill ''a.txt'' 3 (single_file_world ''a.txt'' [65, 66]) = Returned () w' \<and>
      length bufs = 3 \<and> bufs ! 0 = [0, 1] \<and>
      files w' ''a.txt'' =
        Some (RegularFile ([65, 66] @ concat (map (take MAX_RW_COUNT) bufs)) True))"
proof -
  let ?w = "single_file_world ''a.txt'' [65, 66]"
  have h: "files ?w ''a.txt'' = Some (RegularFile [65, 66] True)"
    by (simp add: single_file_world_def)
  have b: "nat 3 = 0 \<or> length [65 :: byte, 66] * 2 ^ (nat 3 - 1) \<le> MAX_RW_COUNT"
    by (simp add: MAX_RW_COUNT_def)
  have e: "entropy ?w = (\<lambda>i. of_nat i)" "consumed ?w = 0"
    by (simp_all add: single_file_world_def)
  from append_mode_keeps_original_bytes [OF h, of 3] obtain w1 bufs1 w2 bufs2 where
    z: "zero_fill ''a.txt'' 3 ?w = Returned () w1"
       "\<forall>k<nat 3. bufs1 ! k =
          replicate (length [65 :: byte, 66] +
            length (concat (map (take MAX_RW_COUNT) (take k bufs1)))) 0"
       "files w1 ''a.txt'' =
          Some (RegularFile ([65, 66] @ concat (map (take MAX_RW_COUNT) bufs1)) True)"
       "nat 3 = 0 \<or> length [65 :: byte, 66] * 2 ^ (nat 3 - 1) \<le> MAX_RW_COUNT \<longrightarrow>
          length ([65 :: byte, 66] @ concat (map (take MAX_RW_COUNT) bufs1)) =
            length [65 :: byte, 66] * 2 ^ nat 3"
    and r: "random_fill ''a.txt'' 3 ?w = Returned () w2" "length bufs2 = nat 3"
       "\<forall>k<nat 3. bufs2 ! k =
          map (entropy ?w)
            [consumed ?w + length (concat (take k bufs2)) ..<
             consumed ?w + length (concat (take k bufs2)) +
               (length [65 :: byte, 66] +
                length (concat (map (take MAX_RW_COUNT) (take k bufs2))))]"
       "files w2 ''a.txt'' =
          Some (RegularFile ([65, 66] @ concat (map (take MAX_RW_COUNT) bufs2)) True)"
    by blast
  from z(2) have z0: "bufs1 ! 0 = [0, 0]"
    by (simp add: numeral_2_eq_2)
  from z(4) b have zl:
    "length ([65 :: byte, 66] @ concat (map (take MAX_RW_COUNT) bufs1)) = 16"
    by simp
  from r(3) have r0: "bufs2 ! 0 = [0, 1]"
    by (simp add: e upt_rec)
  from r(2) have rl: "length bufs2 = 3"
    by simp
  have zero: "\<exists>w' bufs. zero_fill ''a.txt'' 3 ?w = Returned () w' \<and>
      bufs ! 0 = [0, 0] \<and>
      files w' ''a.txt'' =
        Some (RegularFile ([65, 66] @ concat (map (take MAX_RW_COUNT) bufs)) True) \<and>
      length ([65 :: byte, 66] @ concat (map (take MAX_RW_COUNT) bufs)) = 16"
    by (rule exI [of _ w1], rule exI [of _ bufs1]) (intro conjI z(1) z0 z(3) zl)
  have rand: "\<exists>w' bufs. random_fill ''a.txt'' 3 ?w = Returned () w' \<and>
      length bufs = 3 \<and> bufs ! 0 = [0, 1] \<and>
      files w' ''a.txt'' =
        Some (RegularFile ([65, 66] @ concat (map (take MAX_RW_COUNT) bufs)) True)"
    by (rule exI [of _ w2], rule exI [of _ bufs2]) (intro conjI r(1) rl r0 r(4))
  show ?thesis
    by (intro conjI h b zero rand)
qed

text \<open>
  C3, as stated, fails on a large file: one zero-fill pass on a file of \<open>2 ^ 31\<close> bytes
  offers a buffer of \<open>2 ^ 31\<close> bytes to a single write, which transfers
  \<open>MAX_RW_COUNT\<close> of them, so the file has 4294963200 bytes when it is removed and not
  \<open>2 ^ 31 * 2 ^ 1\<close>.
\<close>

theorem zero_fill_size_counterexample:
  "returned (getsize ''a.txt''
     (world_of (zero_fill ''a.txt'' 1
        (single_file_world ''a.txt'' (replicate 2147483648 65))))) = Some 4294963200 \<and>
   (4294963200 :: nat) \<noteq> 2147483648 * 2 ^ 1"
  by (simp add: zero_fill_def open_ab_plus_def single_file_world_def getsize_def
        f_write_def seek_def MAX_RW_COUNT_def)

text \<open>
  C4 at a failing input: a two-byte file. \<^verbatim>\<open>aes_wipe\<close> reads the two bytes and writes the
  ciphertext after them, whatever the cipher: the plaintext stays at offset 0 and the file
  grows by what the one write transfers of the ciphertext.
\<close>

theorem aes_wipe_extends_file:
  "files (world_of (aes_wipe aes_cfb ''a.txt'' (single_file_world ''a.txt'' [65, 66])))
       ''a.txt'' =
     Some (RegularFile
             ([65, 66] @
              take MAX_RW_COUNT
                (aes_cfb (map of_nat [0 ..< 32]) (map of_nat [32 ..< 48]) [65, 66]))
             True)"
proof -
  have h: "files (single_file_world ''a.txt'' [65, 66]) ''a.txt'' =
             Some (RegularFile [65, 66] True)"
    by (simp add: single_file_world_def)
  show ?thesis
    unfolding aes_wipe_appends [OF h]
    by (simp add: single_file_world_def)
qed



text \<open>
  C9, as the code has it. There is no outcome value: a failure is an exception that leaves
  \<^verbatim>\<open>run\<close>. When the directory does not admit removal, \<^verbatim>\<open>run\<close> on a regular file ends
  with \<^verbatim>\<open>PermissionError\<close> and the file stays at its path, its original bytes
  first. That holds when the file could be opened, in which case the passes were completed
  before \<^verbatim>\<open>os.remove\<close> raised, and when it could not.
\<close>

theorem unlink_failure_raises_permission_error:
  assumes "files w p = Some (RegularFile c a)" and "\<not> dir_writable w"
  shows "raised (run aes_cfb p m passes w) = Some PermissionError \<and>
         (\<exists>ext. files (world_of (run aes_cfb p m passes w)) p =
                  Some (RegularFile (c @ ext) a)) \<and>
         (a \<longrightarrow> raised (overwrite aes_cfb p m passes w) = None)"
proof (cases a)
  case True
  with assms(1) have reg: "files w p = Some (RegularFile c True)"
    by simp
  from overwrite_appends [OF reg, of aes_cfb m passes] obtain w' ext where
    r: "overwrite aes_cfb p m passes w = Returned () w'"
       "files w' p = Some (RegularFile (c @ ext) True)"
       "dir_writable w' = dir_writable w"
    by blast
  have "run aes_cfb p m passes w = Raised PermissionError w'"
    using r assms(2) by (simp add: run_def os_remove_def)
  with r True show ?thesis
    by simp
next
  case False
  with assms(1) have reg: "files w p = Some (RegularFile c False)"
    by simp
  from overwrite_refused [OF reg, of aes_cfb m passes] obtain w' where
    r: "overwrite aes_cfb p m passes w = Raised PermissionError w' \<or>
        overwrite aes_cfb p m passes w = Returned () w'"
       "files w' = files w" "dir_writable w' = dir_writable w"
    by blast
  have "run aes_cfb p m passes w = Raised PermissionError w'"
    using r reg assms(2) by (auto simp: run_def os_remove_def)
  moreover have "files w' p = Some (RegularFile (c @ []) False)"
    using r(2) reg by simp
  ultimately show ?thesis
    using False by (metis raised.simps(1) world_of.simps(1))
qed

theorem unlink_failure_raises_permission_error_witness:
  "files (readonly_dir_world ''a.txt'' [65]) ''a.txt'' = Some (RegularFile [65] True) \<and>
   \<not> dir_writable (readonly_dir_world ''a.txt'' [65]) \<and>
   raised (run unused_cipher ''a.txt'' ''random'' 3 (readonly_dir_world ''a.txt'' [65])) =
     Some PermissionError \<and>
   raised (overwrite unused_cipher ''a.txt'' ''random'' 3 (readonly_dir_world ''a.txt'' [65])) =
     None"
proof -
  have h1: "files (readonly_dir_world ''a.txt'' [65]) ''a.txt'' =
              Some (RegularFile [65] True)"
    by (simp add: readonly_dir_world_def single_file_world_def)
  have h2: "\<not> dir_writable (readonly_dir_world ''a.txt'' [65])"
    by (simp add: readonly_dir_world_def)
  show ?thesis
    using h1 h2 unlink_failure_raises_permission_error [OF h1 h2, of unused_cipher "''random''" 3]
    by simp
qed

text \<open>
  C9, as stated, fails: a run whose single pass completed and whose unlink was refused ends
  exactly as a run that could not even open the file, with \<^verbatim>\<open>PermissionError\<close>.
\<close>

theorem partial_erase_counterexample:
  "raised (run unused_cipher ''a.txt'' ''zero'' 1 (readonly_dir_world ''a.txt'' [65])) =
     Some PermissionError \<and>
   written (world_of (run unused_cipher ''a.txt'' ''zero'' 1
                        (readonly_dir_world ''a.txt'' [65]))) = [[0]] \<and>
   raised (run unused_cipher ''a.txt'' ''zero'' 1 (locked_file_world ''a.txt'' [65])) =
     Some PermissionError \<and>
   written (world_of (run unused_cipher ''a.txt'' ''zero'' 1
                        (locked_file_world ''a.txt'' [65]))) = []"
  by (simp add: run_def overwrite_def zero_fill_def open_ab_plus_def os_remove_def
        single_file_world_def readonly_dir_world_def locked_file_world_def
        getsize_def f_write_def seek_def MAX_RW_COUNT_def)

text \<open>
  C10. A method string other than \<^verbatim>\<open>'zero'\<close>, \<^verbatim>\<open>'random'\<close>, \<^verbatim>\<open>'dod'\<close> and
  \<^verbatim>\<open>'aes'\<close> selects no branch: \<^verbatim>\<open>run\<close> is then \<^verbatim>\<open>os.remove\<close> alone, so an existing
  file in a directory that admits removal is unlinked with no write at all.
\<close>

theorem unknown_method_removes_without_overwrite:
  assumes "m \<notin> {''zero'', ''random'', ''dod'', ''aes''}"
  shows "run aes_cfb p m passes w = os_remove p w \<and>
         (files w p = Some (RegularFile c a) \<and> dir_writable w \<longrightarrow>
            run aes_cfb p m passes w = Returned () (w\<lparr>files := (files w)(p := None)\<rparr>))"
  using assms by (auto simp: run_def overwrite_def os_remove_def)

theorem unknown_method_removes_without_overwrite_witness:
  "''gutmann'' \<notin> {''zero'', ''random'', ''dod'', ''aes''} \<and>
   raised (run unused_cipher ''a.txt'' ''gutmann'' 3 (single_file_world ''a.txt'' [65])) =
     None \<and>
   written (world_of (run unused_cipher ''a.txt'' ''gutmann'' 3
                        (single_file_world ''a.txt'' [65]))) = [] \<and>
   files (world_of (run unused_cipher ''a.txt'' ''gutmann'' 3
                      (single_file_world ''a.txt'' [65]))) ''a.txt'' = None"
proof -
  have h: "''gutmann'' \<notin> {''zero'', ''random'', ''dod'', ''aes''}"
    by simp
  have f: "files (single_file_world ''a.txt'' [65]) ''a.txt'' = Some (RegularFile [65] True)"
          "dir_writable (single_file_world ''a.txt'' [65])"
    by (simp_all add: single_file_world_def)
  from f unknown_method_removes_without_overwrite
           [OF h, of unused_cipher "''a.txt''" 3 "single_file_world ''a.txt'' [65]"
              "[65]" True]
  have r: "run unused_cipher ''a.txt'' ''gutmann'' 3 (single_file_world ''a.txt'' [65]) =
             Returned () ((single_file_world ''a.txt'' [65])
               \<lparr>files := (files (single_file_world ''a.txt'' [65]))(''a.txt'' := None)\<rparr>)"
    by blast
  show ?thesis
    unfolding r using h by (simp add: single_file_world_def)
qed

end
